theory Spec2Isabelle
  imports Complex_Main "HOL-Library.Multiset"
begin

section \<open>Client-side utility: the Fisher-Yates shuffle\<close>

text \<open>
  \<^verbatim>\<open>shuffleArray\<close> is defined twice, in \<^verbatim>\<open>src/lib/quote-service.ts\<close> and in
  \<^verbatim>\<open>src/lib/utils.ts\<close>, with the same body:
  \<^verbatim>\<open>
  const shuffled = [...array]
  for (let i = shuffled.length - 1; i > 0; i--) {
    const j = Math.floor(Math.random() * (i + 1))
    ;[shuffled[i], shuffled[j]] = [shuffled[j], shuffled[i]]
  }
  return shuffled
  \<close>
  The only effect is the draw of \<^verbatim>\<open>Math.random()\<close>. It is made explicit: \<open>rnd i\<close> is
  the number drawn in the iteration whose loop variable is \<open>i\<close> (every value of \<open>i\<close>
  occurs at most once in a call). \<^verbatim>\<open>Math.random()\<close> returns a number in the half-open
  interval from 0 to 1; the theorems about the shuffle assume exactly that of \<open>rnd\<close>.

  The destructuring assignment evaluates its right-hand side first, so both reads see
  the array before the swap; then position \<open>i\<close> is written, then position \<open>j\<close>.
\<close>

definition random_index :: "(nat \<Rightarrow> real) \<Rightarrow> nat \<Rightarrow> nat" where
  "random_index rnd i = nat \<lfloor>rnd i * real (i + 1)\<rfloor>"

fun shuffle_loop :: "(nat \<Rightarrow> real) \<Rightarrow> nat \<Rightarrow> 'a list \<Rightarrow> 'a list" where
  "shuffle_loop rnd 0 shuffled = shuffled"
| "shuffle_loop rnd (Suc k) shuffled =
     (let i = Suc k;
          j = random_index rnd i
      in shuffle_loop rnd k (shuffled[i := shuffled ! j, j := shuffled ! i]))"

definition shuffleArray :: "(nat \<Rightarrow> real) \<Rightarrow> 'a list \<Rightarrow> 'a list" where
  "shuffleArray rnd array = shuffle_loop rnd (length array - 1) array"

section \<open>Server side: the quote service\<close>

text \<open>
  \<^verbatim>\<open>src/lib/quote-service.ts\<close> reads two tables through the Prisma client. The client is a
  library outside the repository; its \<^verbatim>\<open>findMany\<close> is modelled as the selection of the
  rows of a table that satisfy the \<^verbatim>\<open>where\<close> object. A table is a list of rows; the order
  in which the database returns rows is the order of that list.

  A \<^verbatim>\<open>Date\<close> column is represented by its ISO-8601 rendering, which is all the service
  does with it.
\<close>

datatype js_date = Date string

fun toISOString :: "js_date \<Rightarrow> string" where
  "toISOString (Date rendering) = rendering"

record quote_row =
  row_id :: string
  row_text :: string
  row_author :: string
  row_category :: "string option"
  row_source :: "string option"
  row_isPreloaded :: bool
  row_userId :: "string option"
  row_createdAt :: js_date
  row_updatedAt :: js_date

record favorite_row =
  fav_userId :: string
  fav_quoteId :: string

record database =
  quote_table :: "quote_row list"
  favorite_table :: "favorite_row list"

text \<open>
  The \<^verbatim>\<open>where\<close> objects that \<^verbatim>\<open>getQuoteIds\<close> builds have the optional keys
  \<^verbatim>\<open>isPreloaded\<close>, \<^verbatim>\<open>userId\<close>, \<^verbatim>\<open>category\<close> and \<^verbatim>\<open>OR\<close>; the members of \<^verbatim>\<open>OR\<close> are
  objects with the first three keys. A key that is absent does not constrain the row, the
  keys that are present must all hold, and \<^verbatim>\<open>OR\<close> holds when one of its members does.
\<close>

record quote_filter =
  where_isPreloaded :: "bool option"
  where_userId :: "string option"
  where_category :: "string option"

record quote_where = quote_filter +
  where_OR :: "quote_filter list option"

definition matches_filter :: "'a quote_filter_scheme \<Rightarrow> quote_row \<Rightarrow> bool" where
  "matches_filter w r \<longleftrightarrow>
     (case where_isPreloaded w of None \<Rightarrow> True | Some b \<Rightarrow> row_isPreloaded r = b)
   \<and> (case where_userId w of None \<Rightarrow> True | Some u \<Rightarrow> row_userId r = Some u)
   \<and> (case where_category w of None \<Rightarrow> True | Some c \<Rightarrow> row_category r = Some c)"

definition matches_where :: "quote_where \<Rightarrow> quote_row \<Rightarrow> bool" where
  "matches_where w r \<longleftrightarrow>
     matches_filter w r
   \<and> (case where_OR w of None \<Rightarrow> True | Some alts \<Rightarrow> list_ex (\<lambda>a. matches_filter a r) alts)"

definition quote_findMany :: "database \<Rightarrow> (quote_row \<Rightarrow> bool) \<Rightarrow> quote_row list" where
  "quote_findMany db cond = filter cond (quote_table db)"

definition favorite_findMany :: "database \<Rightarrow> (favorite_row \<Rightarrow> bool) \<Rightarrow> favorite_row list" where
  "favorite_findMany db cond = filter cond (favorite_table db)"

definition no_filter :: quote_filter where
  "no_filter = \<lparr>where_isPreloaded = None, where_userId = None, where_category = None\<rparr>"

definition empty_where :: quote_where where
  "empty_where =
     \<lparr>where_isPreloaded = None, where_userId = None, where_category = None, where_OR = None\<rparr>"

datatype quote_source = PRELOADED | CUSTOM | FAVORITES | BOTH

text \<open>
  The \<^verbatim>\<open>switch\<close> of \<^verbatim>\<open>getQuoteIds\<close> either fills the \<^verbatim>\<open>where\<close> object and falls out of
  the \<^verbatim>\<open>switch\<close> (\<open>Inr\<close>), or, for \<^verbatim>\<open>'FAVORITES'\<close>, returns from the function at once
  (\<open>Inl\<close>). \<^verbatim>\<open>'BOTH'\<close> shares its branch with \<^verbatim>\<open>default\<close>.
\<close>

definition source_switch ::
  "quote_source \<Rightarrow> string \<Rightarrow> database \<Rightarrow> string list + quote_where" where
  "source_switch source userId db =
     (case source of
        PRELOADED \<Rightarrow> Inr (empty_where\<lparr>where_isPreloaded := Some True\<rparr>)
      | CUSTOM \<Rightarrow> Inr (empty_where\<lparr>where_userId := Some userId, where_isPreloaded := Some False\<rparr>)
      | FAVORITES \<Rightarrow>
          (let favorites = favorite_findMany db (\<lambda>f. fav_userId f = userId)
           in Inl (map fav_quoteId favorites))
      | BOTH \<Rightarrow>
          Inr (empty_where\<lparr>where_OR := Some
                 [no_filter\<lparr>where_isPreloaded := Some True\<rparr>,
                  no_filter\<lparr>where_userId := Some userId, where_isPreloaded := Some False\<rparr>]\<rparr>))"

text \<open>
  \<^verbatim>\<open>if (category)\<close> tests the optional string for truthiness: \<^verbatim>\<open>undefined\<close> and the empty
  string are both falsy.
\<close>

definition truthy :: "string option \<Rightarrow> bool" where
  "truthy v \<longleftrightarrow> (case v of None \<Rightarrow> False | Some str \<Rightarrow> str \<noteq> [])"

definition getQuoteIds ::
  "quote_source \<Rightarrow> string \<Rightarrow> string option \<Rightarrow> database \<Rightarrow> string list" where
  "getQuoteIds source userId category db =
     (case source_switch source userId db of
        Inl ids \<Rightarrow> ids
      | Inr whereClause \<Rightarrow>
          (let whereClause' =
                 (if truthy category then whereClause\<lparr>where_category := category\<rparr>
                  else whereClause);
               quotes = quote_findMany db (matches_where whereClause')
           in map row_id quotes))"

text \<open>
  The records that \<^verbatim>\<open>getQuotesByIds\<close> returns, and that the client receives as JSON. The
  client's interface \<^verbatim>\<open>Quote\<close> names the same fields but \<^verbatim>\<open>isPreloaded\<close>, which the
  objects carry all the same.
\<close>

record quote =
  q_id :: string
  q_text :: string
  q_author :: string
  q_category :: "string option"
  q_source :: "string option"
  q_isPreloaded :: bool
  q_isFavorited :: bool
  q_createdAt :: string
  q_updatedAt :: string

definition getQuotesByIds :: "string list \<Rightarrow> string \<Rightarrow> database \<Rightarrow> quote list" where
  "getQuotesByIds ids userId db =
     (let quotes = quote_findMany db (\<lambda>r. row_id r \<in> set ids);
          favorites = favorite_findMany db
                        (\<lambda>f. fav_userId f = userId \<and> fav_quoteId f \<in> set ids);
          favoriteSet = set (map fav_quoteId favorites)
      in map (\<lambda>r. \<lparr>q_id = row_id r, q_text = row_text r, q_author = row_author r,
                     q_category = row_category r, q_source = row_source r,
                     q_isPreloaded = row_isPreloaded r,
                     q_isFavorited = (row_id r \<in> favoriteSet),
                     q_createdAt = toISOString (row_createdAt r),
                     q_updatedAt = toISOString (row_updatedAt r)\<rparr>) quotes)"

section \<open>Server side: the batch endpoint\<close>

text \<open>
  \<^verbatim>\<open>POST /api/quotes/batch\<close> (\<^verbatim>\<open>src/app/api/quotes/batch/route.ts\<close>). The request is
  the user id of the session, if there is one, and the body. \<^verbatim>\<open>request.json()\<close> throws
  when the body is not JSON text: the body of the model is \<open>None\<close> then, and the parsed
  value otherwise. The keys of a parsed object are distinct.
\<close>

datatype json =
    JNull
  | JBool bool
  | JNumber real
  | JString string
  | JArray "json list"
  | JObject "(string \<times> json) list"

text \<open>\<^verbatim>\<open>z.string()\<close> accepts a JSON string and nothing else.\<close>

fun zod_string :: "json \<Rightarrow> string option" where
  "zod_string (JString str) = Some str"
| "zod_string _ = None"

fun zod_string_array :: "json list \<Rightarrow> string list option" where
  "zod_string_array [] = Some []"
| "zod_string_array (v # vs) =
     (case zod_string v of
        None \<Rightarrow> None
      | Some str \<Rightarrow> (case zod_string_array vs of None \<Rightarrow> None | Some strs \<Rightarrow> Some (str # strs)))"

text \<open>
  \<^verbatim>\<open>z.object({ ids: z.array(z.string()).min(1).max(50) })\<close>: the value must be an object,
  its key \<^verbatim>\<open>ids\<close> must be present and hold an array, every element must be a string, and
  the length must be at least 1 and at most 50. \<open>None\<close> stands for the \<^verbatim>\<open>ZodError\<close> that
  \<^verbatim>\<open>parse\<close> throws.
\<close>

definition batchSchema_parse :: "json \<Rightarrow> string list option" where
  "batchSchema_parse body =
     (case body of
        JObject members \<Rightarrow>
          (case map_of members ''ids'' of
             Some (JArray vs) \<Rightarrow>
               (case zod_string_array vs of
                  None \<Rightarrow> None
                | Some ids \<Rightarrow> if 1 \<le> length ids \<and> length ids \<le> 50 then Some ids else None)
           | _ \<Rightarrow> None)
      | _ \<Rightarrow> None)"

datatype response_body = Quotes "quote list" | Error string

record response =
  status :: nat
  payload :: response_body
  calls_getQuotesByIds :: "(string list \<times> string) list"

text \<open>
  The handler. The third field of the result lists the calls of \<^verbatim>\<open>getQuotesByIds\<close> that
  the handler made, with their arguments. \<^verbatim>\<open>!session?.user?.id\<close> holds when there is no
  session, no user, no id, or the id is the empty string. An exception that is not a
  \<^verbatim>\<open>ZodError\<close> is answered with status 500; \<^verbatim>\<open>NextResponse.json\<close> without a status
  answers 200. The database of the model answers every query, so the status 500 of a
  failed query does not occur in it.
\<close>

definition unauthorized :: response where
  "unauthorized = \<lparr>status = 401, payload = Error ''Unauthorized'', calls_getQuotesByIds = []\<rparr>"

definition POST :: "string option \<Rightarrow> json option \<Rightarrow> database \<Rightarrow> response" where
  "POST session_user_id request_json db =
     (case session_user_id of
        None \<Rightarrow> unauthorized
      | Some userId \<Rightarrow>
          if userId = [] then unauthorized
          else
            (case request_json of
               None \<Rightarrow>
                 \<lparr>status = 500, payload = Error ''Internal server error'',
                  calls_getQuotesByIds = []\<rparr>
             | Some body \<Rightarrow>
                 (case batchSchema_parse body of
                    None \<Rightarrow>
                      \<lparr>status = 400, payload = Error ''Invalid request'',
                       calls_getQuotesByIds = []\<rparr>
                  | Some ids \<Rightarrow>
                      (let quotes = getQuotesByIds ids userId db
                       in \<lparr>status = 200, payload = Quotes quotes,
                           calls_getQuotesByIds = [(ids, userId)]\<rparr>))))"

section \<open>Client side: the hook \<^verbatim>\<open>useOptimizedQuotes\<close>\<close>

text \<open>
  \<^verbatim>\<open>src/hooks/use-optimized-quotes.ts\<close>. The options are counts; the defaults are 20
  and 5.
\<close>

record options =
  batchSize :: nat
  prefetchThreshold :: nat

definition default_options :: options where
  "default_options = \<lparr>batchSize = 20, prefetchThreshold = 5\<rparr>"

text \<open>
  The six state variables of the hook and its one ref, \<^verbatim>\<open>fetchedIds\<close>. The cache is a
  \<^verbatim>\<open>Map\<close> from identifiers to quotes.
\<close>

record hook =
  allQuoteIds :: "string list"
  shuffledIds :: "string list"
  currentIdIndex :: nat
  quotesCache :: "string \<rightharpoonup> quote"
  currentQuote :: "quote option"
  isInitialized :: bool
  fetchedIds :: "string set"

text \<open>
  The requests that the hook sends: the list of identifiers
  (\<^verbatim>\<open>GET /api/quotes/ids\<close>), a batch of bodies (\<^verbatim>\<open>POST /api/quotes/batch\<close>), and the
  two requests of \<^verbatim>\<open>toggleFavorite\<close>. A batch request is kept together with the content
  of \<^verbatim>\<open>fetchedIds.current\<close> at the moment it was sent.
\<close>

datatype request =
    ListIds
  | Batch "string list"
  | FavoritePost string
  | FavoriteDelete string

type_synonym sent_request = "request \<times> string set"

text \<open>
  A render fixes the values of the state variables. The callbacks made in that render
  (\<^verbatim>\<open>getNextQuote\<close>, \<^verbatim>\<open>prefetchNextBatch\<close>, \<^verbatim>\<open>toggleFavorite\<close>) read these values for
  as long as they run, also after an \<^verbatim>\<open>await\<close>: a setter such as \<^verbatim>\<open>setQuotesCache\<close>
  stores a value for the next render and leaves the variables of the running callback
  alone. No statement of the hook writes into a \<^verbatim>\<open>Map\<close> that is the value of the state
  variable: \<^verbatim>\<open>onSuccess\<close> and \<^verbatim>\<open>toggleFavorite\<close> write into a copy,
  \<^verbatim>\<open>new Map(quotesCache)\<close>. The ref \<^verbatim>\<open>fetchedIds\<close> is one mutable set, read and written in
  place by every callback.

  A call of a callback is therefore a function of two values of type \<open>hook\<close>: \<open>c\<close>, the
  values of the render that made the callback, which never change during the call, and
  \<open>s\<close>, what the setters and the ref hold at the moment, which is what the next render
  sees. A call starts with \<open>s = c\<close>.

  \<^verbatim>\<open>array.slice(start, end)\<close> with indices that are not negative:
\<close>

definition slice :: "'a list \<Rightarrow> nat \<Rightarrow> nat \<Rightarrow> 'a list" where
  "slice xs start fin = drop start (take fin xs)"

text \<open>
  \<^verbatim>\<open>fetchBatchMutation.onSuccess\<close>: every quote of the response is put into a copy of the
  cache and its identifier is added to the ref; the copy becomes the new cache. The copy
  is taken of the cache that the setters hold when the response arrives (the handler of
  the latest render). The theorems on \<open>getNextQuote\<close> below speak of the requests, the
  ref, the position and the current quote, which do not depend on which cache is copied.
\<close>

definition onSuccess :: "quote list \<Rightarrow> hook \<Rightarrow> hook" where
  "onSuccess data s =
     s\<lparr>quotesCache := fold (\<lambda>quote newCache. newCache(q_id quote \<mapsto> quote)) data (quotesCache s),
       fetchedIds := fold (\<lambda>quote fetched. insert (q_id quote) fetched) data (fetchedIds s)\<rparr>"

text \<open>
  \<^verbatim>\<open>prefetchNextBatch\<close> sends its request with \<^verbatim>\<open>mutate\<close> and does not wait for the
  response: the result is the request, if one is sent. The state does not change before
  the response arrives.
\<close>

definition prefetchNextBatch :: "options \<Rightarrow> hook \<Rightarrow> string list option" where
  "prefetchNextBatch opts s =
     (if shuffledIds s = [] then None
      else
        (let remainingIds = int (length (shuffledIds s)) - int (currentIdIndex s);
             unfetchedCount =
               length (filter (\<lambda>id. id \<notin> fetchedIds s)
                         (slice (shuffledIds s) (currentIdIndex s)
                            (currentIdIndex s + batchSize opts)))
         in if unfetchedCount > 0
               \<and> remainingIds \<le> int (prefetchThreshold opts) + int (batchSize opts)
            then
              (let nextBatchIds =
                     filter (\<lambda>id. id \<notin> fetchedIds s)
                       (slice (shuffledIds s) (currentIdIndex s)
                          (currentIdIndex s + batchSize opts))
               in if length nextBatchIds > 0 then Some nextBatchIds else None)
            else None))"

text \<open>
  How a call of \<^verbatim>\<open>getNextQuote\<close> ends: it has shown the quote at a position of the
  shuffled list, it has shown nothing, or \<^verbatim>\<open>mutateAsync\<close> has thrown (the request
  failed) and the exception has left the callback.
\<close>

datatype outcome = Served nat | NotServed | Rejected

record result =
  exit :: outcome
  hook_after :: hook
  sent :: "sent_request list"

text \<open>
  The block \<^verbatim>\<open>if (quote) { ... break }\<close> of the loop. \<^verbatim>\<open>prefetchNextBatch()\<close> is the
  callback of the same render: it reads the list and the position of \<open>c\<close> and the ref as
  it is now. \<^verbatim>\<open>shuffleArray(allQuoteIds)\<close> reads the list of \<open>c\<close>; \<open>rnd\<close> gives its draws.
\<close>

definition serve ::
  "options \<Rightarrow> (nat \<Rightarrow> real) \<Rightarrow> hook \<Rightarrow> nat \<Rightarrow> quote \<Rightarrow> hook \<Rightarrow> sent_request list \<Rightarrow> result" where
  "serve opts rnd c nextIndex quote s trace =
     (let s1 = s\<lparr>currentQuote := Some quote, currentIdIndex := nextIndex + 1\<rparr>;
          trace1 = (case prefetchNextBatch opts (c\<lparr>fetchedIds := fetchedIds s\<rparr>) of
                      None \<Rightarrow> trace
                    | Some nextBatchIds \<Rightarrow> trace @ [(Batch nextBatchIds, fetchedIds s)]);
          s2 = (if nextIndex + 1 \<ge> length (shuffledIds c)
                then s1\<lparr>shuffledIds := shuffleArray rnd (allQuoteIds c), currentIdIndex := 0\<rparr>
                else s1)
      in \<lparr>exit = Served nextIndex, hook_after = s2, sent = trace1\<rparr>)"

text \<open>
  The \<^verbatim>\<open>while\<close> loop of \<^verbatim>\<open>getNextQuote\<close>. \<open>srv n ids\<close> is the answer of the batch endpoint
  to the request for \<open>ids\<close> that is the \<open>n\<close>-th of this call (counted from 0): the quotes
  of the response, or \<open>None\<close> when the request fails. \<^verbatim>\<open>mutateAsync\<close> returns after
  \<^verbatim>\<open>onSuccess\<close> has run. Both reads of \<^verbatim>\<open>quotesCache.get(nextId)\<close>, the one before the
  request and the one after it, read the cache of \<open>c\<close>.
\<close>

function getNextQuote_loop ::
  "options \<Rightarrow> (nat \<Rightarrow> string list \<Rightarrow> quote list option) \<Rightarrow> (nat \<Rightarrow> real)
     \<Rightarrow> hook \<Rightarrow> nat \<Rightarrow> hook \<Rightarrow> sent_request list \<Rightarrow> result" where
  "getNextQuote_loop opts srv rnd c nextIndex s trace =
     (if nextIndex < length (shuffledIds c) then
        (let nextId = shuffledIds c ! nextIndex;
             quote = quotesCache c nextId
         in if quote = None \<and> nextId \<notin> fetchedIds s then
              (let batchEnd = min (nextIndex + batchSize opts) (length (shuffledIds c));
                   idsToFetch = filter (\<lambda>id. id \<notin> fetchedIds s)
                                  (slice (shuffledIds c) nextIndex batchEnd)
               in if length idsToFetch > 0 then
                    (case srv (length trace) idsToFetch of
                       None \<Rightarrow>
                         \<lparr>exit = Rejected, hook_after = s,
                          sent = trace @ [(Batch idsToFetch, fetchedIds s)]\<rparr>
                     | Some data \<Rightarrow>
                         (let s' = onSuccess data s;
                              trace' = trace @ [(Batch idsToFetch, fetchedIds s)]
                          in case quotesCache c nextId of
                               Some found \<Rightarrow> serve opts rnd c nextIndex found s' trace'
                             | None \<Rightarrow> getNextQuote_loop opts srv rnd c (nextIndex + 1) s' trace'))
                  else getNextQuote_loop opts srv rnd c (nextIndex + 1) s trace)
            else
              (case quote of
                 Some found \<Rightarrow> serve opts rnd c nextIndex found s trace
               | None \<Rightarrow> getNextQuote_loop opts srv rnd c (nextIndex + 1) s trace))
      else \<lparr>exit = NotServed, hook_after = s, sent = trace\<rparr>)"
  by pat_completeness auto
termination
  by (relation "measure (\<lambda>(opts, srv, rnd, c, nextIndex, s, trace).
                           length (shuffledIds c) - nextIndex)")
     auto

declare getNextQuote_loop.simps [simp del]

definition getNextQuote ::
  "options \<Rightarrow> (nat \<Rightarrow> string list \<Rightarrow> quote list option) \<Rightarrow> (nat \<Rightarrow> real) \<Rightarrow> hook \<Rightarrow> result" where
  "getNextQuote opts srv rnd s =
     (if shuffledIds s = [] then \<lparr>exit = NotServed, hook_after = s, sent = []\<rparr>
      else getNextQuote_loop opts srv rnd s (currentIdIndex s) s [])"

text \<open>
  \<^verbatim>\<open>toggleFavorite\<close>. \<open>persisted\<close> tells whether the request to \<^verbatim>\<open>/api/favorites\<close> went
  through: it is false when \<^verbatim>\<open>fetch\<close> throws or the response is not ok, which both end
  in the \<^verbatim>\<open>catch\<close> block. \<^verbatim>\<open>currentQuote?.id === quoteId\<close> reads the current quote of the
  render, before and after the request.
\<close>

definition is_current :: "hook \<Rightarrow> string \<Rightarrow> bool" where
  "is_current c quoteId \<longleftrightarrow>
     (case currentQuote c of None \<Rightarrow> False | Some cur \<Rightarrow> q_id cur = quoteId)"

definition toggleFavorite :: "bool \<Rightarrow> string \<Rightarrow> hook \<Rightarrow> hook \<times> request list" where
  "toggleFavorite persisted quoteId c =
     (case quotesCache c quoteId of
        None \<Rightarrow> (c, [])
      | Some quote \<Rightarrow>
          (let updatedQuote = quote\<lparr>q_isFavorited := \<not> q_isFavorited quote\<rparr>;
               newCache = (quotesCache c)(quoteId \<mapsto> updatedQuote);
               s1 = c\<lparr>quotesCache := newCache\<rparr>;
               s2 = (if is_current c quoteId then s1\<lparr>currentQuote := Some updatedQuote\<rparr>
                     else s1);
               call = (if q_isFavorited quote then FavoriteDelete quoteId
                       else FavoritePost quoteId)
           in if persisted then (s2, [call])
              else
                (let newCache' = newCache(quoteId \<mapsto> quote);
                     s3 = s2\<lparr>quotesCache := newCache'\<rparr>;
                     s4 = (if is_current c quoteId then s3\<lparr>currentQuote := Some quote\<rparr>
                           else s3)
                 in (s4, [call]))))"

text \<open>\<^verbatim>\<open>reset\<close> is the one callback that asks for the list of identifiers again.\<close>

definition reset :: "hook \<Rightarrow> hook \<times> request list" where
  "reset s =
     (s\<lparr>isInitialized := False, shuffledIds := [], currentIdIndex := 0,
        quotesCache := Map.empty, currentQuote := None, fetchedIds := {}\<rparr>,
      [ListIds])"

section \<open>Client side: a session of the hook\<close>

text \<open>
  What happens to the hook between two resets, as a list of events: a call of
  \<^verbatim>\<open>getNextQuote\<close> (with the answers to the requests it awaits and the draws of its
  reshuffle), a call of \<^verbatim>\<open>prefetchNextBatch\<close> on its own, the arrival of the response to
  a request that was sent with \<^verbatim>\<open>mutate\<close> and not awaited (\<^verbatim>\<open>onSuccess\<close> runs then), and
  a call of \<^verbatim>\<open>toggleFavorite\<close>. Events may come in any order, and a response may arrive
  at any moment and carry any quotes. \<^verbatim>\<open>reset\<close> clears \<^verbatim>\<open>fetchedIds\<close> and ends the
  session.
\<close>

datatype event =
    NextQuote "nat \<Rightarrow> string list \<Rightarrow> quote list option" "nat \<Rightarrow> real"
  | Prefetch
  | Arrival "quote list"
  | ToggleFavorite bool string

text \<open>
  The log of a session lists, in the order of time, the batch requests that were sent
  and the responses that arrived, each by its identifiers.
\<close>

datatype log_entry = Requested "string list" | Received "string list"

definition request_ids :: "sent_request \<Rightarrow> string list" where
  "request_ids e = (case fst e of Batch ids \<Rightarrow> ids | _ \<Rightarrow> [])"

text \<open>
  The requests that a call of \<^verbatim>\<open>getNextQuote\<close> awaits: the \<open>n\<close>-th is answered by
  \<open>srv n\<close>, and its response, if there is one, arrives before the next request is sent.
\<close>

fun awaited_log ::
  "(nat \<Rightarrow> string list \<Rightarrow> quote list option) \<Rightarrow> nat \<Rightarrow> sent_request list \<Rightarrow> log_entry list" where
  "awaited_log srv n [] = []"
| "awaited_log srv n (e # es) =
     Requested (request_ids e)
     # (case srv n (request_ids e) of None \<Rightarrow> [] | Some data \<Rightarrow> [Received (map q_id data)])
     @ awaited_log srv (Suc n) es"

text \<open>
  The request that a call of \<^verbatim>\<open>getNextQuote\<close> made in the render \<open>c\<close> leaves in flight: the
  one of \<^verbatim>\<open>prefetchNextBatch()\<close>, which is called when a quote is shown and reads the ref
  as the call leaves it. It is the last request of the call; the others are awaited.
\<close>

definition in_flight :: "options \<Rightarrow> hook \<Rightarrow> result \<Rightarrow> string list option" where
  "in_flight opts c r =
     (case exit r of
        Served k \<Rightarrow> prefetchNextBatch opts (c\<lparr>fetchedIds := fetchedIds (hook_after r)\<rparr>)
      | _ \<Rightarrow> None)"

definition call_log ::
  "options \<Rightarrow> (nat \<Rightarrow> string list \<Rightarrow> quote list option) \<Rightarrow> hook \<Rightarrow> result \<Rightarrow> log_entry list" where
  "call_log opts srv c r =
     (case in_flight opts c r of
        None \<Rightarrow> awaited_log srv 0 (sent r)
      | Some ids \<Rightarrow> awaited_log srv 0 (butlast (sent r)) @ [Requested ids])"

fun step :: "options \<Rightarrow> event \<Rightarrow> hook \<Rightarrow> hook \<times> log_entry list" where
  "step opts (NextQuote srv rnd) s =
     (let r = getNextQuote opts srv rnd s in (hook_after r, call_log opts srv s r))"
| "step opts Prefetch s =
     (s, case prefetchNextBatch opts s of None \<Rightarrow> [] | Some ids \<Rightarrow> [Requested ids])"
| "step opts (Arrival data) s = (onSuccess data s, [Received (map q_id data)])"
| "step opts (ToggleFavorite persisted quoteId) s = (fst (toggleFavorite persisted quoteId s), [])"

fun run :: "options \<Rightarrow> event list \<Rightarrow> hook \<Rightarrow> hook \<times> log_entry list" where
  "run opts [] s = (s, [])"
| "run opts (ev # evs) s =
     (case step opts ev s of
        (s1, l1) \<Rightarrow> (case run opts evs s1 of (s2, l2) \<Rightarrow> (s2, l1 @ l2)))"

section \<open>Notions of the specification\<close>

text \<open>
  A parsed request body contains the list \<open>ids\<close> of between 1 and 50 string identifiers
  under the key \<^verbatim>\<open>ids\<close>.
\<close>

definition has_id_list :: "json \<Rightarrow> string list \<Rightarrow> bool" where
  "has_id_list body ids \<longleftrightarrow>
     (case body of
        JObject members \<Rightarrow>
          map_of members ''ids'' = Some (JArray (map JString ids))
          \<and> 1 \<le> length ids \<and> length ids \<le> 50
      | _ \<Rightarrow> False)"

text \<open>
  A request that was sent is a batch request, none of its identifiers was in
  \<^verbatim>\<open>fetchedIds\<close> when it was sent, and \<^verbatim>\<open>fetchedIds\<close> had not lost any of the identifiers
  \<open>before\<close>.
\<close>

definition unfetched_when_sent :: "string set \<Rightarrow> sent_request \<Rightarrow> bool" where
  "unfetched_when_sent before e \<longleftrightarrow>
     (case fst e of
        Batch ids \<Rightarrow> (\<forall>x \<in> set ids. x \<notin> snd e) \<and> before \<subseteq> snd e
      | _ \<Rightarrow> False)"

text \<open>
  The identifiers whose bodies a log has received, and the requests of a log. A log does
  not request a body again: no request contains an identifier of \<open>got\<close> or of a response
  that stands before the request in the log.
\<close>

fun received :: "log_entry list \<Rightarrow> string set" where
  "received [] = {}"
| "received (Requested ids # l) = received l"
| "received (Received ids # l) = set ids \<union> received l"

fun requested :: "log_entry list \<Rightarrow> string list list" where
  "requested [] = []"
| "requested (Requested ids # l) = ids # requested l"
| "requested (Received ids # l) = requested l"

fun no_rerequest :: "string set \<Rightarrow> log_entry list \<Rightarrow> bool" where
  "no_rerequest got [] \<longleftrightarrow> True"
| "no_rerequest got (Requested ids # l) \<longleftrightarrow> (\<forall>x \<in> set ids. x \<notin> got) \<and> no_rerequest got l"
| "no_rerequest got (Received ids # l) \<longleftrightarrow> no_rerequest (got \<union> set ids) l"

section \<open>Auxiliary definitions\<close>

text \<open>The batch that the loop of \<^verbatim>\<open>getNextQuote\<close> computes at a position.\<close>

definition batch_at :: "options \<Rightarrow> hook \<Rightarrow> nat \<Rightarrow> hook \<Rightarrow> string list" where
  "batch_at opts c nextIndex s =
     filter (\<lambda>id. id \<notin> fetchedIds s)
       (slice (shuffledIds c) nextIndex
          (min (nextIndex + batchSize opts) (length (shuffledIds c))))"

text \<open>The request in flight as the entry of the call that sent it.\<close>

definition pending_entries :: "options \<Rightarrow> hook \<Rightarrow> result \<Rightarrow> sent_request list" where
  "pending_entries opts c r =
     (case in_flight opts c r of
        None \<Rightarrow> [] | Some ids \<Rightarrow> [(Batch ids, fetchedIds (hook_after r))])"

section \<open>Sample data\<close>

definition sample_db :: database where
  "sample_db =
     \<lparr>quote_table =
        [\<lparr>row_id = ''q1'', row_text = ''Know thyself'', row_author = ''Socrates'',
          row_category = Some ''wisdom'', row_source = None, row_isPreloaded = True,
          row_userId = None, row_createdAt = Date ''2024-01-01T00:00:00.000Z'',
          row_updatedAt = Date ''2024-01-01T00:00:00.000Z''\<rparr>,
         \<lparr>row_id = ''q2'', row_text = ''Ship it'', row_author = ''Ann'',
          row_category = Some ''work'', row_source = None, row_isPreloaded = False,
          row_userId = Some ''u1'', row_createdAt = Date ''2024-02-01T00:00:00.000Z'',
          row_updatedAt = Date ''2024-02-02T00:00:00.000Z''\<rparr>,
         \<lparr>row_id = ''q3'', row_text = ''Rest'', row_author = ''Bob'',
          row_category = Some ''wisdom'', row_source = None, row_isPreloaded = False,
          row_userId = Some ''u2'', row_createdAt = Date ''2024-03-01T00:00:00.000Z'',
          row_updatedAt = Date ''2024-03-01T00:00:00.000Z''\<rparr>],
      favorite_table =
        [\<lparr>fav_userId = ''u1'', fav_quoteId = ''q1''\<rparr>,
         \<lparr>fav_userId = ''u2'', fav_quoteId = ''q2''\<rparr>,
         \<lparr>fav_userId = ''u1'', fav_quoteId = ''q2''\<rparr>]\<rparr>"

definition sample_quote :: "string \<Rightarrow> quote" where
  "sample_quote i = \<lparr>q_id = i, q_text = ''text of '' @ i, q_author = ''author'',
                     q_category = None, q_source = None, q_isPreloaded = True,
                     q_isFavorited = False, q_createdAt = ''2024-01-01T00:00:00.000Z'',
                     q_updatedAt = ''2024-01-01T00:00:00.000Z''\<rparr>"

text \<open>A batch endpoint that answers every request with the quotes asked for.\<close>

definition echo_server :: "nat \<Rightarrow> string list \<Rightarrow> quote list option" where
  "echo_server n ids = Some (map sample_quote ids)"

definition quarter_rnd :: "nat \<Rightarrow> real" where
  "quarter_rnd i = 1 / 4"

definition single_batches :: options where
  "single_batches = \<lparr>batchSize = 1, prefetchThreshold = 0\<rparr>"

definition pair_batches :: options where
  "pair_batches = \<lparr>batchSize = 2, prefetchThreshold = 5\<rparr>"

text \<open>
  Three quotes \<^verbatim>\<open>a\<close>, \<^verbatim>\<open>b\<close>, \<^verbatim>\<open>c\<close>, shuffled in this order. The hook after its two
  initial effects, which request the first \<^verbatim>\<open>batchSize\<close> identifiers and show the first
  quote: with batches of one quote, and with batches of two.
\<close>

definition hook_one_cached :: hook where
  "hook_one_cached =
     \<lparr>allQuoteIds = [''a'', ''b'', ''c''], shuffledIds = [''a'', ''b'', ''c''],
      currentIdIndex = 1, quotesCache = [''a'' \<mapsto> sample_quote ''a''],
      currentQuote = Some (sample_quote ''a''), isInitialized = True,
      fetchedIds = {''a''}\<rparr>"

definition hook_two_cached :: hook where
  "hook_two_cached =
     \<lparr>allQuoteIds = [''a'', ''b'', ''c''], shuffledIds = [''a'', ''b'', ''c''],
      currentIdIndex = 1,
      quotesCache = [''a'' \<mapsto> sample_quote ''a'', ''b'' \<mapsto> sample_quote ''b''],
      currentQuote = Some (sample_quote ''a''), isInitialized = True,
      fetchedIds = {''a'', ''b''}\<rparr>"

text \<open>The hook with every body in the cache, before the last quote of the shuffle.\<close>

definition hook_all_cached :: hook where
  "hook_all_cached =
     \<lparr>allQuoteIds = [''a'', ''b'', ''c''], shuffledIds = [''c'', ''a'', ''b''],
      currentIdIndex = 2,
      quotesCache = [''a'' \<mapsto> sample_quote ''a'', ''b'' \<mapsto> sample_quote ''b'',
                     ''c'' \<mapsto> sample_quote ''c''],
      currentQuote = Some (sample_quote ''a''), isInitialized = True,
      fetchedIds = {''a'', ''b'', ''c''}\<rparr>"


section \<open>Properties of the shuffle\<close>

lemma random_index_le:
  assumes "0 \<le> rnd i" and "rnd i < 1"
  shows "random_index rnd i \<le> i"
proof -
  have "rnd i * real (i + 1) < real (i + 1)"
    using assms by (simp add: mult_less_cancel_right2)
  then have "\<lfloor>rnd i * real (i + 1)\<rfloor> < int (i + 1)"
    by (simp add: floor_less_iff)
  then show ?thesis
    by (simp add: random_index_def)
qed

lemma shuffle_loop_mset:
  assumes "\<forall>i. 0 \<le> rnd i \<and> rnd i < 1" and "k < length xs \<or> k = 0"
  shows "mset (shuffle_loop rnd k xs) = mset xs"
  using assms(2)
proof (induction k arbitrary: xs)
  case 0
  show ?case by simp
next
  case (Suc k)
  let ?j = "random_index rnd (Suc k)"
  let ?ys = "xs[Suc k := xs ! ?j, ?j := xs ! Suc k]"
  from Suc.prems have i: "Suc k < length xs" by simp
  have "?j \<le> Suc k" using assms(1) by (simp add: random_index_le)
  with i have j: "?j < length xs" by simp
  have swap: "mset ?ys = mset xs" using j i by (rule mset_swap)
  have "k < length ?ys \<or> k = 0" using i by simp
  then have "mset (shuffle_loop rnd k ?ys) = mset ?ys" by (rule Suc.IH)
  with swap show ?case by (simp add: Let_def)
qed

text \<open>
  Claim C3. For every input array, \<open>shuffleArray\<close> returns a permutation of the input:
  the result has the same multiset of elements and the same length as the input.
  The draws of \<^verbatim>\<open>Math.random()\<close> lie in the interval from 0 (included) to 1 (excluded).
\<close>

theorem shuffleArray_permutation:
  assumes "\<forall>i. 0 \<le> rnd i \<and> rnd i < 1"
  shows "mset (shuffleArray rnd array) = mset array
       \<and> length (shuffleArray rnd array) = length array"
proof -
  have k: "length array - 1 < length array \<or> length array - 1 = 0"
    by (cases array) simp_all
  have m: "mset (shuffleArray rnd array) = mset array"
    unfolding shuffleArray_def using assms k by (rule shuffle_loop_mset)
  from m have "length (shuffleArray rnd array) = length array"
    by (rule mset_eq_length)
  with m show ?thesis by simp
qed

theorem shuffleArray_permutation_witness:
  "(\<forall>i. (0::real) \<le> (\<lambda>_. 1 / 2) i \<and> (\<lambda>_. 1 / 2) i < (1::real))
   \<and> shuffleArray (\<lambda>_. 1 / 2) [''q1'', ''q2'', ''q3''] = [''q1'', ''q3'', ''q2'']
   \<and> mset (shuffleArray (\<lambda>_. 1 / 2) [''q1'', ''q2'', ''q3'']) = mset [''q1'', ''q2'', ''q3'']
   \<and> length (shuffleArray (\<lambda>_. 1 / 2) [''q1'', ''q2'', ''q3'']) = length [''q1'', ''q2'', ''q3'']"
proof -
  have r: "\<forall>i. (0::real) \<le> (\<lambda>_. 1 / 2) i \<and> (\<lambda>_. 1 / 2) i < (1::real)" by simp
  have e: "shuffleArray (\<lambda>_. 1 / 2) [''q1'', ''q2'', ''q3''] = [''q1'', ''q3'', ''q2'']"
    by (simp add: shuffleArray_def random_index_def numeral_2_eq_2)
  show ?thesis
    using r e shuffleArray_permutation [OF r, of "[''q1'', ''q2'', ''q3'']"] by simp
qed

section \<open>Properties of the quote service\<close>

lemma map_filter_cong:
  "(\<And>r. r \<in> set xs \<Longrightarrow> P r \<longleftrightarrow> Q r) \<Longrightarrow> map f (filter P xs) = map f (filter Q xs)"
  by (simp cong: filter_cong)

text \<open>
  Claim C7. For every user, \<open>getQuoteIds\<close> called with source \<^verbatim>\<open>'BOTH'\<close> returns exactly
  the identifiers of the quotes that are preloaded or that were created by that user
  (the user id matches and \<^verbatim>\<open>isPreloaded\<close> is false), restricted to the given category
  when one is supplied (a category that is a non-empty string).
\<close>

theorem getQuoteIds_BOTH:
  "getQuoteIds BOTH userId category db =
     map row_id
       (filter (\<lambda>r. (row_isPreloaded r \<or> (row_userId r = Some userId \<and> \<not> row_isPreloaded r))
                   \<and> (truthy category \<longrightarrow> row_category r = category))
          (quote_table db))"
  unfolding getQuoteIds_def source_switch_def quote_findMany_def
  by (cases category)
     (auto simp: matches_where_def matches_filter_def empty_where_def no_filter_def truthy_def
           intro!: map_filter_cong)

theorem getQuoteIds_BOTH_witness:
  "truthy (Some ''wisdom'')
   \<and> getQuoteIds BOTH ''u2'' (Some ''wisdom'') sample_db = [''q1'', ''q3'']
   \<and> getQuoteIds BOTH ''u1'' None sample_db = [''q1'', ''q2'']"
  using getQuoteIds_BOTH [of "''u2''" "Some ''wisdom''" sample_db]
        getQuoteIds_BOTH [of "''u1''" None sample_db]
  by (simp add: truthy_def sample_db_def)

text \<open>
  Claim C10. When \<open>getQuoteIds\<close> is called with source \<^verbatim>\<open>'FAVORITES'\<close>, the category
  argument has no effect: the function returns the quote identifiers of all favorite rows
  of the user, whatever the category of the quotes, because it returns before the
  category filter is applied.
\<close>

theorem getQuoteIds_FAVORITES_ignores_category:
  "getQuoteIds FAVORITES userId category db =
     map fav_quoteId (filter (\<lambda>f. fav_userId f = userId) (favorite_table db))
   \<and> getQuoteIds FAVORITES userId category db = getQuoteIds FAVORITES userId category' db"
  by (simp add: getQuoteIds_def source_switch_def favorite_findMany_def)

theorem getQuoteIds_FAVORITES_ignores_category_witness:
  "getQuoteIds FAVORITES ''u1'' (Some ''wisdom'') sample_db = [''q1'', ''q2'']
   \<and> getQuoteIds FAVORITES ''u1'' (Some ''wisdom'') sample_db
       = getQuoteIds FAVORITES ''u1'' None sample_db"
  using getQuoteIds_FAVORITES_ignores_category [of "''u1''" "Some ''wisdom''" sample_db None]
  by (simp add: getQuoteIds_def source_switch_def favorite_findMany_def sample_db_def)

lemma favoriteSet_member:
  assumes "x \<in> set ids"
  shows "x \<in> set (map fav_quoteId
                 (favorite_findMany db (\<lambda>f. fav_userId f = userId \<and> fav_quoteId f \<in> set ids)))
         \<longleftrightarrow> (\<exists>f \<in> set (favorite_table db). fav_userId f = userId \<and> fav_quoteId f = x)"
  using assms by (auto simp: favorite_findMany_def image_iff)

text \<open>
  Claim C6. For every user and every list of requested identifiers, \<open>getQuotesByIds\<close>
  returns only records whose id is among the requested identifiers, and the flag
  \<^verbatim>\<open>isFavorited\<close> of each returned record is true if and only if a favorite row linking
  that user to that quote exists.
\<close>

theorem getQuotesByIds_sound:
  "\<forall>q \<in> set (getQuotesByIds ids userId db).
      q_id q \<in> set ids
    \<and> (q_isFavorited q \<longleftrightarrow>
         (\<exists>f \<in> set (favorite_table db). fav_userId f = userId \<and> fav_quoteId f = q_id q))"
proof
  fix q
  assume "q \<in> set (getQuotesByIds ids userId db)"
  then obtain r where r: "r \<in> set (quote_table db)" "row_id r \<in> set ids"
    and id: "q_id q = row_id r"
    and fav: "q_isFavorited q \<longleftrightarrow> row_id r \<in> set (map fav_quoteId
                 (favorite_findMany db (\<lambda>f. fav_userId f = userId \<and> fav_quoteId f \<in> set ids)))"
    unfolding getQuotesByIds_def quote_findMany_def Let_def by auto
  from r(2) id fav show "q_id q \<in> set ids
    \<and> (q_isFavorited q \<longleftrightarrow>
         (\<exists>f \<in> set (favorite_table db). fav_userId f = userId \<and> fav_quoteId f = q_id q))"
    by (simp only: favoriteSet_member simp_thms)
qed

theorem getQuotesByIds_sound_witness:
  "getQuotesByIds [''q2'', ''q1'', ''q9''] ''u2'' sample_db =
     [\<lparr>q_id = ''q1'', q_text = ''Know thyself'', q_author = ''Socrates'',
       q_category = Some ''wisdom'', q_source = None, q_isPreloaded = True,
       q_isFavorited = False, q_createdAt = ''2024-01-01T00:00:00.000Z'',
       q_updatedAt = ''2024-01-01T00:00:00.000Z''\<rparr>,
      \<lparr>q_id = ''q2'', q_text = ''Ship it'', q_author = ''Ann'',
       q_category = Some ''work'', q_source = None, q_isPreloaded = False,
       q_isFavorited = True, q_createdAt = ''2024-02-01T00:00:00.000Z'',
       q_updatedAt = ''2024-02-02T00:00:00.000Z''\<rparr>]
   \<and> ''q2'' \<in> set [''q2'', ''q1'', ''q9'']
   \<and> (\<exists>f \<in> set (favorite_table sample_db). fav_userId f = ''u2'' \<and> fav_quoteId f = ''q2'')
   \<and> \<not> (\<exists>f \<in> set (favorite_table sample_db). fav_userId f = ''u2'' \<and> fav_quoteId f = ''q1'')"
proof -
  have e: "getQuotesByIds [''q2'', ''q1'', ''q9''] ''u2'' sample_db =
     [\<lparr>q_id = ''q1'', q_text = ''Know thyself'', q_author = ''Socrates'',
       q_category = Some ''wisdom'', q_source = None, q_isPreloaded = True,
       q_isFavorited = False, q_createdAt = ''2024-01-01T00:00:00.000Z'',
       q_updatedAt = ''2024-01-01T00:00:00.000Z''\<rparr>,
      \<lparr>q_id = ''q2'', q_text = ''Ship it'', q_author = ''Ann'',
       q_category = Some ''work'', q_source = None, q_isPreloaded = False,
       q_isFavorited = True, q_createdAt = ''2024-02-01T00:00:00.000Z'',
       q_updatedAt = ''2024-02-02T00:00:00.000Z''\<rparr>]"
    by (simp add: getQuotesByIds_def quote_findMany_def favorite_findMany_def sample_db_def)
  show ?thesis
    using e getQuotesByIds_sound [of "[''q2'', ''q1'', ''q9'']" "''u2''" sample_db] by simp
qed

section \<open>Properties of the batch endpoint\<close>

lemma zod_string_iff: "zod_string v = Some str \<longleftrightarrow> v = JString str"
  by (cases v) auto

lemma map_JString_eq: "map JString xs = map JString ys \<longleftrightarrow> xs = ys"
  by (simp add: inj_map_eq_map inj_def)

lemma zod_string_array_strings: "zod_string_array (map JString strs) = Some strs"
  by (induction strs) simp_all

lemma zod_string_array_Some:
  "zod_string_array vs = Some strs \<Longrightarrow> vs = map JString strs"
proof (induction vs arbitrary: strs)
  case Nil
  then show ?case by simp
next
  case (Cons v vs)
  from Cons.prems obtain str rest where v: "zod_string v = Some str"
    and rest: "zod_string_array vs = Some rest" and strs: "strs = str # rest"
    by (auto split: option.splits)
  from v have "v = JString str" by (simp add: zod_string_iff)
  moreover from rest have "vs = map JString rest" by (rule Cons.IH)
  ultimately show ?case using strs by simp
qed

lemma batchSchema_parse_iff: "batchSchema_parse body = Some ids \<longleftrightarrow> has_id_list body ids"
proof (cases body)
  case (JObject members)
  show ?thesis
  proof (cases "map_of members ''ids''")
    case None
    with JObject show ?thesis by (simp add: batchSchema_parse_def has_id_list_def)
  next
    case (Some v)
    show ?thesis
    proof (cases v)
      case (JArray vs)
      show ?thesis
      proof (cases "zod_string_array vs")
        case None
        then have "vs \<noteq> map JString ids" by (auto simp: zod_string_array_strings)
        with JObject Some JArray None show ?thesis
          by (simp add: batchSchema_parse_def has_id_list_def)
      next
        case (Some strs)
        then have "vs = map JString strs" by (rule zod_string_array_Some)
        with JObject \<open>map_of members ''ids'' = Some v\<close> JArray Some show ?thesis
          by (auto simp: batchSchema_parse_def has_id_list_def map_JString_eq)
      qed
    qed (use JObject Some in \<open>simp_all add: batchSchema_parse_def has_id_list_def\<close>)
  qed
qed (simp_all add: batchSchema_parse_def has_id_list_def)

text \<open>
  Claim C8, as the code has it. The request is authenticated (the user id of the session
  is a non-empty string). When the body is JSON and does not contain a list of between 1
  and 50 string identifiers, the endpoint answers with status 400 and does not call
  \<open>getQuotesByIds\<close>. When the body is JSON and contains such a list, it answers 200 with
  the result of the one call of \<open>getQuotesByIds\<close> for that list and that user. When the
  body is not JSON, it answers with status 500 and does not call \<open>getQuotesByIds\<close>.
  Whatever the body, \<open>getQuotesByIds\<close> is called only with a list within these bounds
  that the body contains.
\<close>

theorem POST_validates_parsed_body:
  assumes "userId \<noteq> []"
  shows "((\<forall>ids. \<not> has_id_list body ids) \<longrightarrow>
            status (POST (Some userId) (Some body) db) = 400
          \<and> calls_getQuotesByIds (POST (Some userId) (Some body) db) = [])
       \<and> (has_id_list body ids \<longrightarrow>
            POST (Some userId) (Some body) db =
              \<lparr>status = 200, payload = Quotes (getQuotesByIds ids userId db),
               calls_getQuotesByIds = [(ids, userId)]\<rparr>)
       \<and> status (POST (Some userId) None db) = 500
       \<and> calls_getQuotesByIds (POST (Some userId) None db) = []
       \<and> (\<forall>call \<in> set (calls_getQuotesByIds (POST (Some userId) request_json db)).
            \<exists>parsed. request_json = Some parsed \<and> has_id_list parsed (fst call)
                     \<and> snd call = userId)"
proof (intro conjI impI)
  assume "\<forall>ids. \<not> has_id_list body ids"
  then have none: "batchSchema_parse body = None"
    by (cases "batchSchema_parse body") (auto simp: batchSchema_parse_iff)
  with assms show "status (POST (Some userId) (Some body) db) = 400"
    by (simp add: POST_def)
  from none assms show "calls_getQuotesByIds (POST (Some userId) (Some body) db) = []"
    by (simp add: POST_def)
next
  assume "has_id_list body ids"
  then have "batchSchema_parse body = Some ids" by (simp add: batchSchema_parse_iff)
  with assms show "POST (Some userId) (Some body) db =
              \<lparr>status = 200, payload = Quotes (getQuotesByIds ids userId db),
               calls_getQuotesByIds = [(ids, userId)]\<rparr>"
    by (simp add: POST_def)
next
  from assms show "status (POST (Some userId) None db) = 500"
    by (simp add: POST_def)
  from assms show "calls_getQuotesByIds (POST (Some userId) None db) = []"
    by (simp add: POST_def)
next
  show "\<forall>call \<in> set (calls_getQuotesByIds (POST (Some userId) request_json db)).
            \<exists>parsed. request_json = Some parsed \<and> has_id_list parsed (fst call)
                     \<and> snd call = userId"
    using assms
    by (auto simp: POST_def batchSchema_parse_iff [symmetric] split: option.splits)
qed

theorem POST_validates_parsed_body_witness:
  "''u1'' \<noteq> []
   \<and> (\<forall>ids. \<not> has_id_list (JObject [(''ids'', JArray [])]) ids)
   \<and> status (POST (Some ''u1'') (Some (JObject [(''ids'', JArray [])])) sample_db) = 400
   \<and> has_id_list (JObject [(''ids'', JArray [JString ''q1''])]) [''q1'']
   \<and> status (POST (Some ''u1'') (Some (JObject [(''ids'', JArray [JString ''q1''])])) sample_db)
       = 200
   \<and> calls_getQuotesByIds
        (POST (Some ''u1'') (Some (JObject [(''ids'', JArray [JString ''q1''])])) sample_db)
       = [([''q1''], ''u1'')]"
proof -
  have u: "''u1'' \<noteq> []" by simp
  have bad: "\<forall>ids. \<not> has_id_list (JObject [(''ids'', JArray [])]) ids"
    by (auto simp: has_id_list_def)
  have good: "has_id_list (JObject [(''ids'', JArray [JString ''q1''])]) [''q1'']"
    by (simp add: has_id_list_def)
  show ?thesis
    using u bad good
      POST_validates_parsed_body [OF u, of "JObject [(''ids'', JArray [])]" sample_db]
      POST_validates_parsed_body
        [OF u, of "JObject [(''ids'', JArray [JString ''q1''])]" sample_db "[''q1'']"]
    by simp
qed

text \<open>
  Claim C8 as it is stated fails for a request whose body is not JSON: such a body
  contains no list of identifiers, the request is authenticated, and the answer has
  status 500, not 400.
\<close>

theorem POST_unparsable_body_500:
  "status (POST (Some ''u1'') None sample_db) = 500
   \<and> status (POST (Some ''u1'') None sample_db) \<noteq> 400"
  by (simp add: POST_def)

section \<open>Properties of the hook\<close>

lemmas run_defs = getNextQuote_def getNextQuote_loop.simps serve_def prefetchNextBatch_def
  slice_def onSuccess_def Let_def echo_server_def single_batches_def pair_batches_def

lemma q_id_sample_quote [simp]: "q_id (sample_quote i) = i"
  by (simp add: sample_quote_def)

lemma fetchedIds_onSuccess: "fetchedIds (onSuccess data s) = fetchedIds s \<union> set (map q_id data)"
proof -
  have "\<And>F. fold (\<lambda>quote fetched. insert (q_id quote) fetched) data F = F \<union> set (map q_id data)"
    by (induction data) auto
  then show ?thesis by (simp add: onSuccess_def)
qed

lemma onSuccess_keeps [simp]:
  "shuffledIds (onSuccess data s) = shuffledIds s"
  "allQuoteIds (onSuccess data s) = allQuoteIds s"
  "currentIdIndex (onSuccess data s) = currentIdIndex s"
  "currentQuote (onSuccess data s) = currentQuote s"
  by (simp_all add: onSuccess_def)

lemma prefetchNextBatch_Some:
  assumes "prefetchNextBatch opts s = Some ids"
  shows "ids = filter (\<lambda>id. id \<notin> fetchedIds s)
                 (slice (shuffledIds s) (currentIdIndex s) (currentIdIndex s + batchSize opts))"
  using assms by (simp add: prefetchNextBatch_def Let_def split: if_splits)

lemma batch_at_unfetched: "x \<in> set (batch_at opts c nextIndex s) \<Longrightarrow> x \<notin> fetchedIds s"
  by (simp add: batch_at_def)

lemma serve_exit [simp]: "exit (serve opts rnd c k quote s trace) = Served k"
  by (simp add: serve_def Let_def)

lemma serve_after:
  "shuffledIds (hook_after (serve opts rnd c k quote s trace)) =
     (if length (shuffledIds c) \<le> k + 1 then shuffleArray rnd (allQuoteIds c) else shuffledIds s)"
  "currentIdIndex (hook_after (serve opts rnd c k quote s trace)) =
     (if length (shuffledIds c) \<le> k + 1 then 0 else k + 1)"
  "currentQuote (hook_after (serve opts rnd c k quote s trace)) = Some quote"
  by (simp_all add: serve_def Let_def)

lemma serve_sent:
  assumes "\<forall>e \<in> set trace. unfetched_when_sent F e" and "F \<subseteq> fetchedIds s"
  shows "\<forall>e \<in> set (sent (serve opts rnd c k quote s trace)). unfetched_when_sent F e"
proof (cases "prefetchNextBatch opts (c\<lparr>fetchedIds := fetchedIds s\<rparr>)")
  case None
  with assms(1) show ?thesis by (simp add: serve_def Let_def)
next
  case (Some ids)
  from prefetchNextBatch_Some [OF Some] have "\<forall>x \<in> set ids. x \<notin> fetchedIds s" by simp
  with assms Some show ?thesis
    by (simp add: serve_def Let_def unfetched_when_sent_def)
qed

text \<open>
  One turn of the loop, by cases: the position is past the end; the quote at the position
  is in the cache of the render; it is not and nothing is requested (the identifier is
  in \<^verbatim>\<open>fetchedIds\<close>, or the batch is empty); the request fails; the request succeeds, and
  the loop goes on to the next position, because the cache of the render still has no
  entry for the identifier.
\<close>

lemma loop_cases [case_names finished cached skip rejected fetched]:
  fixes opts srv rnd c nextIndex s trace
  defines "r \<equiv> getNextQuote_loop opts srv rnd c nextIndex s trace"
  defines "ids \<equiv> batch_at opts c nextIndex s"
  obtains
    "\<not> nextIndex < length (shuffledIds c)"
    "r = \<lparr>exit = NotServed, hook_after = s, sent = trace\<rparr>"
  | found where "nextIndex < length (shuffledIds c)"
      "quotesCache c (shuffledIds c ! nextIndex) = Some found"
      "r = serve opts rnd c nextIndex found s trace"
  | "nextIndex < length (shuffledIds c)"
      "quotesCache c (shuffledIds c ! nextIndex) = None"
      "r = getNextQuote_loop opts srv rnd c (nextIndex + 1) s trace"
  | "nextIndex < length (shuffledIds c)"
      "quotesCache c (shuffledIds c ! nextIndex) = None"
      "shuffledIds c ! nextIndex \<notin> fetchedIds s"
      "srv (length trace) ids = None"
      "r = \<lparr>exit = Rejected, hook_after = s, sent = trace @ [(Batch ids, fetchedIds s)]\<rparr>"
  | data where "nextIndex < length (shuffledIds c)"
      "quotesCache c (shuffledIds c ! nextIndex) = None"
      "shuffledIds c ! nextIndex \<notin> fetchedIds s"
      "srv (length trace) ids = Some data"
      "r = getNextQuote_loop opts srv rnd c (nextIndex + 1) (onSuccess data s)
             (trace @ [(Batch ids, fetchedIds s)])"
proof (cases "nextIndex < length (shuffledIds c)")
  case False
  then have "r = \<lparr>exit = NotServed, hook_after = s, sent = trace\<rparr>"
    unfolding r_def by (simp add: getNextQuote_loop.simps)
  with False that(1) show thesis by blast
next
  case inrange: True
  show thesis
  proof (cases "quotesCache c (shuffledIds c ! nextIndex)")
    case (Some found)
    with inrange have "r = serve opts rnd c nextIndex found s trace"
      unfolding r_def by (simp add: getNextQuote_loop.simps)
    with inrange Some that(2) show thesis by blast
  next
    case None
    show thesis
    proof (cases "shuffledIds c ! nextIndex \<in> fetchedIds s \<or> ids = []")
      case True
      with inrange None have "r = getNextQuote_loop opts srv rnd c (nextIndex + 1) s trace"
        unfolding r_def ids_def batch_at_def
        by (subst getNextQuote_loop.simps) (auto simp: Let_def)
      with inrange None that(3) show thesis by blast
    next
      case False
      then have unf: "shuffledIds c ! nextIndex \<notin> fetchedIds s" and ne: "ids \<noteq> []" by simp_all
      show thesis
      proof (cases "srv (length trace) ids")
        case None
        with inrange \<open>quotesCache c (shuffledIds c ! nextIndex) = None\<close> unf ne
        have "r = \<lparr>exit = Rejected, hook_after = s, sent = trace @ [(Batch ids, fetchedIds s)]\<rparr>"
          unfolding r_def ids_def batch_at_def
          by (subst getNextQuote_loop.simps) (simp add: Let_def)
        with inrange \<open>quotesCache c (shuffledIds c ! nextIndex) = None\<close> unf None that(4)
        show thesis by blast
      next
        case (Some data)
        with inrange \<open>quotesCache c (shuffledIds c ! nextIndex) = None\<close> unf ne
        have "r = getNextQuote_loop opts srv rnd c (nextIndex + 1) (onSuccess data s)
                    (trace @ [(Batch ids, fetchedIds s)])"
          unfolding r_def ids_def batch_at_def
          by (subst getNextQuote_loop.simps) (simp add: Let_def)
        with inrange \<open>quotesCache c (shuffledIds c ! nextIndex) = None\<close> unf Some that(5)
        show thesis by blast
      qed
    qed
  qed
qed

lemma loop_sent:
  assumes "\<forall>e \<in> set trace. unfetched_when_sent F e" and "F \<subseteq> fetchedIds s"
  shows "\<forall>e \<in> set (sent (getNextQuote_loop opts srv rnd c nextIndex s trace)).
           unfetched_when_sent F e"
  using assms
proof (induction "length (shuffledIds c) - nextIndex" arbitrary: nextIndex s trace rule: less_induct)
  case less
  have new: "\<forall>e \<in> set (trace @ [(Batch (batch_at opts c nextIndex s), fetchedIds s)]).
               unfetched_when_sent F e"
    using less.prems by (auto simp: unfetched_when_sent_def dest: batch_at_unfetched)
  show ?case
  proof (cases opts srv rnd c nextIndex s trace rule: loop_cases)
    case finished
    with less.prems show ?thesis by simp
  next
    case (cached found)
    with less.prems show ?thesis by (simp add: serve_sent)
  next
    case skip
    from skip(1) have lt: "length (shuffledIds c) - (nextIndex + 1) < length (shuffledIds c) - nextIndex"
      by simp
    from less.hyps [OF lt less.prems] show ?thesis by (simp only: skip(3))
  next
    case rejected
    with new show ?thesis by simp
  next
    case (fetched data)
    from fetched(1) have lt: "length (shuffledIds c) - (nextIndex + 1) < length (shuffledIds c) - nextIndex"
      by simp
    have grow: "F \<subseteq> fetchedIds (onSuccess data s)"
      using less.prems(2) by (auto simp: fetchedIds_onSuccess)
    from less.hyps [OF lt new grow] show ?thesis by (simp only: fetched(5))
  qed
qed

lemma loop_served_cached:
  assumes "exit (getNextQuote_loop opts srv rnd c nextIndex s trace) = Served k"
  shows "nextIndex \<le> k \<and> k < length (shuffledIds c) \<and> quotesCache c (shuffledIds c ! k) \<noteq> None"
  using assms
proof (induction "length (shuffledIds c) - nextIndex" arbitrary: nextIndex s trace rule: less_induct)
  case less
  show ?case
  proof (cases opts srv rnd c nextIndex s trace rule: loop_cases)
    case finished
    with less.prems show ?thesis by simp
  next
    case (cached found)
    with less.prems show ?thesis by simp
  next
    case skip
    from skip(1) have lt: "length (shuffledIds c) - (nextIndex + 1) < length (shuffledIds c) - nextIndex"
      by simp
    from less.prems have "exit (getNextQuote_loop opts srv rnd c (nextIndex + 1) s trace) = Served k"
      by (simp only: skip(3))
    from less.hyps [OF lt this] show ?thesis by simp
  next
    case rejected
    with less.prems show ?thesis by simp
  next
    case (fetched data)
    from fetched(1) have lt: "length (shuffledIds c) - (nextIndex + 1) < length (shuffledIds c) - nextIndex"
      by simp
    from less.prems have "exit (getNextQuote_loop opts srv rnd c (nextIndex + 1) (onSuccess data s)
             (trace @ [(Batch (batch_at opts c nextIndex s), fetchedIds s)])) = Served k"
      by (simp only: fetched(5))
    from less.hyps [OF lt this] show ?thesis by simp
  qed
qed

lemma loop_served_state:
  assumes "exit (getNextQuote_loop opts srv rnd c nextIndex s trace) = Served k"
  shows "shuffledIds (hook_after (getNextQuote_loop opts srv rnd c nextIndex s trace)) =
           (if length (shuffledIds c) \<le> k + 1 then shuffleArray rnd (allQuoteIds c)
            else shuffledIds s)
       \<and> currentIdIndex (hook_after (getNextQuote_loop opts srv rnd c nextIndex s trace)) =
           (if length (shuffledIds c) \<le> k + 1 then 0 else k + 1)
       \<and> currentQuote (hook_after (getNextQuote_loop opts srv rnd c nextIndex s trace)) =
           quotesCache c (shuffledIds c ! k)"
  using assms
proof (induction "length (shuffledIds c) - nextIndex" arbitrary: nextIndex s trace rule: less_induct)
  case less
  show ?case
  proof (cases opts srv rnd c nextIndex s trace rule: loop_cases)
    case finished
    with less.prems show ?thesis by simp
  next
    case (cached found)
    with less.prems have "k = nextIndex" by simp
    with cached show ?thesis by (simp add: serve_after)
  next
    case skip
    from skip(1) have lt: "length (shuffledIds c) - (nextIndex + 1) < length (shuffledIds c) - nextIndex"
      by simp
    from less.prems have "exit (getNextQuote_loop opts srv rnd c (nextIndex + 1) s trace) = Served k"
      by (simp only: skip(3))
    from less.hyps [OF lt this] show ?thesis by (simp only: skip(3))
  next
    case rejected
    with less.prems show ?thesis by simp
  next
    case (fetched data)
    from fetched(1) have lt: "length (shuffledIds c) - (nextIndex + 1) < length (shuffledIds c) - nextIndex"
      by simp
    from less.prems have "exit (getNextQuote_loop opts srv rnd c (nextIndex + 1) (onSuccess data s)
             (trace @ [(Batch (batch_at opts c nextIndex s), fetchedIds s)])) = Served k"
      by (simp only: fetched(5))
    from less.hyps [OF lt this] show ?thesis by (simp only: fetched(5) onSuccess_keeps)
  qed
qed

lemma received_append: "received (xs @ ys) = received xs \<union> received ys"
  by (induction xs rule: received.induct) auto

lemma requested_append: "requested (xs @ ys) = requested xs @ requested ys"
  by (induction xs rule: requested.induct) auto

lemma no_rerequest_append:
  "no_rerequest got (xs @ ys) \<longleftrightarrow> no_rerequest got xs \<and> no_rerequest (got \<union> received xs) ys"
  by (induction got xs rule: no_rerequest.induct) (auto simp: Un_assoc)

lemma no_rerequest_mono: "no_rerequest got l \<Longrightarrow> got' \<subseteq> got \<Longrightarrow> no_rerequest got' l"
proof (induction got l arbitrary: got' rule: no_rerequest.induct)
  case (3 got ids l)
  then show ?case by (auto intro: "3.IH")
qed auto

lemma awaited_log_append:
  "awaited_log srv n (xs @ ys) = awaited_log srv n xs @ awaited_log srv (n + length xs) ys"
  by (induction xs arbitrary: n) auto

lemma requested_awaited_log: "requested (awaited_log srv n es) = map request_ids es"
  by (induction es arbitrary: n) (auto simp: requested_append split: option.splits)

lemma fetchedIds_serve [simp]:
  "fetchedIds (hook_after (serve opts rnd c k quote s trace)) = fetchedIds s"
  by (simp add: serve_def Let_def)

lemma serve_sent_eq:
  "sent (serve opts rnd c k quote s trace) =
     trace @ (case prefetchNextBatch opts (c\<lparr>fetchedIds := fetchedIds s\<rparr>) of
                None \<Rightarrow> [] | Some ids \<Rightarrow> [(Batch ids, fetchedIds s)])"
  by (simp add: serve_def Let_def split: option.splits)

lemma loop_structure:
  assumes "got \<subseteq> fetchedIds s"
  shows "\<exists>aw. sent (getNextQuote_loop opts srv rnd c nextIndex s trace)
                = trace @ aw @ pending_entries opts c (getNextQuote_loop opts srv rnd c nextIndex s trace)
             \<and> no_rerequest got (awaited_log srv (length trace) aw)
             \<and> got \<union> received (awaited_log srv (length trace) aw)
                 \<subseteq> fetchedIds (hook_after (getNextQuote_loop opts srv rnd c nextIndex s trace))"
  using assms
proof (induction "length (shuffledIds c) - nextIndex" arbitrary: nextIndex s trace got rule: less_induct)
  case less
  let ?r = "getNextQuote_loop opts srv rnd c nextIndex s trace"
  let ?ids = "batch_at opts c nextIndex s"
  have avoid: "\<forall>x \<in> set ?ids. x \<notin> got"
    using less.prems by (auto dest: batch_at_unfetched)
  show ?case
  proof (cases opts srv rnd c nextIndex s trace rule: loop_cases)
    case finished
    with less.prems show ?thesis
      by (intro exI [of _ "[]"]) (simp add: pending_entries_def in_flight_def)
  next
    case (cached found)
    with less.prems show ?thesis
      by (intro exI [of _ "[]"])
         (simp add: pending_entries_def in_flight_def serve_sent_eq split: option.splits)
  next
    case skip
    from skip(1) have lt: "length (shuffledIds c) - (nextIndex + 1) < length (shuffledIds c) - nextIndex"
      by simp
    from less.hyps [OF lt less.prems] show ?thesis by (simp only: skip(3))
  next
    case rejected
    with less.prems avoid show ?thesis
      by (intro exI [of _ "[(Batch ?ids, fetchedIds s)]"])
         (simp add: pending_entries_def in_flight_def request_ids_def)
  next
    case (fetched data)
    let ?e = "(Batch ?ids, fetchedIds s)"
    let ?r' = "getNextQuote_loop opts srv rnd c (nextIndex + 1) (onSuccess data s) (trace @ [?e])"
    from fetched(1) have lt: "length (shuffledIds c) - (nextIndex + 1) < length (shuffledIds c) - nextIndex"
      by simp
    have grow: "got \<union> set (map q_id data) \<subseteq> fetchedIds (onSuccess data s)"
      using less.prems by (auto simp: fetchedIds_onSuccess)
    from less.hyps [OF lt grow, of "trace @ [?e]"]
    obtain aw where aw: "sent ?r' = (trace @ [?e]) @ aw @ pending_entries opts c ?r'"
      and ok: "no_rerequest (got \<union> set (map q_id data)) (awaited_log srv (length (trace @ [?e])) aw)"
      and sub: "got \<union> set (map q_id data) \<union> received (awaited_log srv (length (trace @ [?e])) aw)
                  \<subseteq> fetchedIds (hook_after ?r')"
      by blast
    have r: "?r = ?r'" by (rule fetched(5))
    have log: "awaited_log srv (length trace) (?e # aw) =
                 Requested ?ids # Received (map q_id data) # awaited_log srv (Suc (length trace)) aw"
      using fetched(4) by (simp add: request_ids_def)
    show ?thesis
    proof (intro exI [of _ "?e # aw"] conjI)
      show "sent ?r = trace @ (?e # aw) @ pending_entries opts c ?r"
        using aw by (simp add: r)
      show "no_rerequest got (awaited_log srv (length trace) (?e # aw))"
        using ok avoid unfolding log by simp
      show "got \<union> received (awaited_log srv (length trace) (?e # aw)) \<subseteq> fetchedIds (hook_after ?r)"
        using sub unfolding log r by (simp add: Un_assoc)
    qed
  qed
qed


lemma call_structure:
  assumes "got \<subseteq> fetchedIds s"
  shows "\<exists>aw. sent (getNextQuote opts srv rnd s)
                = aw @ pending_entries opts s (getNextQuote opts srv rnd s)
             \<and> no_rerequest got (awaited_log srv 0 aw)
             \<and> got \<union> received (awaited_log srv 0 aw)
                 \<subseteq> fetchedIds (hook_after (getNextQuote opts srv rnd s))"
proof (cases "shuffledIds s = []")
  case True
  with assms show ?thesis
    by (intro exI [of _ "[]"]) (simp add: getNextQuote_def pending_entries_def in_flight_def)
next
  case False
  with loop_structure [OF assms, of opts srv rnd s "currentIdIndex s" "[]"] show ?thesis
    by (simp add: getNextQuote_def)
qed

lemma in_flight_unfetched:
  assumes "in_flight opts c r = Some ids"
  shows "\<forall>x \<in> set ids. x \<notin> fetchedIds (hook_after r)"
proof -
  from assms have "prefetchNextBatch opts (c\<lparr>fetchedIds := fetchedIds (hook_after r)\<rparr>) = Some ids"
    by (simp add: in_flight_def split: outcome.splits)
  from prefetchNextBatch_Some [OF this] show ?thesis by simp
qed

lemma call_log_ok:
  assumes "got \<subseteq> fetchedIds s"
  shows "no_rerequest got (call_log opts srv s (getNextQuote opts srv rnd s))
       \<and> got \<union> received (call_log opts srv s (getNextQuote opts srv rnd s))
           \<subseteq> fetchedIds (hook_after (getNextQuote opts srv rnd s))
       \<and> requested (call_log opts srv s (getNextQuote opts srv rnd s))
           = map request_ids (sent (getNextQuote opts srv rnd s))"
proof -
  let ?r = "getNextQuote opts srv rnd s"
  from call_structure [OF assms, of opts srv rnd]
  obtain aw where aw: "sent ?r = aw @ pending_entries opts s ?r"
    and ok: "no_rerequest got (awaited_log srv 0 aw)"
    and sub: "got \<union> received (awaited_log srv 0 aw) \<subseteq> fetchedIds (hook_after ?r)"
    by blast
  show ?thesis
  proof (cases "in_flight opts s ?r")
    case None
    with aw have "sent ?r = aw" by (simp add: pending_entries_def)
    with None ok sub show ?thesis by (simp add: call_log_def requested_awaited_log)
  next
    case (Some ids)
    with aw have s: "sent ?r = aw @ [(Batch ids, fetchedIds (hook_after ?r))]"
      by (simp add: pending_entries_def)
    from in_flight_unfetched [OF Some] sub
    have "\<forall>x \<in> set ids. x \<notin> got \<union> received (awaited_log srv 0 aw)" by blast
    with Some ok sub s show ?thesis
      by (simp add: call_log_def no_rerequest_append received_append requested_append
            requested_awaited_log request_ids_def)
  qed
qed

lemma fetchedIds_toggleFavorite [simp]:
  "fetchedIds (fst (toggleFavorite persisted quoteId s)) = fetchedIds s"
  by (simp add: toggleFavorite_def Let_def split: option.splits)

lemma step_ok:
  assumes "got \<subseteq> fetchedIds s"
  shows "no_rerequest got (snd (step opts ev s))
       \<and> got \<union> received (snd (step opts ev s)) \<subseteq> fetchedIds (fst (step opts ev s))"
proof (cases ev)
  case (NextQuote srv rnd)
  with call_log_ok [OF assms, of opts srv rnd] show ?thesis by (simp add: Let_def)
next
  case Prefetch
  with assms show ?thesis
    by (auto dest!: prefetchNextBatch_Some split: option.splits)
next
  case (Arrival data)
  with assms show ?thesis by (auto simp: fetchedIds_onSuccess)
next
  case (ToggleFavorite persisted quoteId)
  with assms show ?thesis by simp
qed

lemma run_Cons:
  "snd (run opts (ev # evs) s)
     = snd (step opts ev s) @ snd (run opts evs (fst (step opts ev s)))"
  "fst (run opts (ev # evs) s) = fst (run opts evs (fst (step opts ev s)))"
  by (simp_all split: prod.splits)

lemma run_ok:
  assumes "got \<subseteq> fetchedIds s"
  shows "no_rerequest got (snd (run opts evs s))"
  using assms
proof (induction evs arbitrary: s got)
  case Nil
  show ?case by simp
next
  case (Cons ev evs)
  from step_ok [OF Cons.prems, of opts ev]
  have ok: "no_rerequest got (snd (step opts ev s))"
    and sub: "got \<union> received (snd (step opts ev s)) \<subseteq> fetchedIds (fst (step opts ev s))"
    by simp_all
  from Cons.IH [OF sub]
  have "no_rerequest (got \<union> received (snd (step opts ev s)))
          (snd (run opts evs (fst (step opts ev s))))" .
  with ok show ?case
    by (simp only: run_Cons no_rerequest_append simp_thms)
qed

text \<open>
  Claim C1, as the code has it. Every request that \<open>getNextQuote\<close> sends is a batch
  request, and every identifier in it was absent from \<^verbatim>\<open>fetchedIds\<close> at the moment the
  request was sent; the same holds for the request of \<open>prefetchNextBatch\<close>. Every body
  that arrives is recorded in \<^verbatim>\<open>fetchedIds\<close>. So in every session (calls of
  \<open>getNextQuote\<close> and \<open>prefetchNextBatch\<close>, responses that arrive, favorites toggled, in
  any order), no request contains an identifier that was in \<^verbatim>\<open>fetchedIds\<close> when the
  session began or whose body arrived in a response before the request was sent; the log
  of a call lists exactly the requests the call sent. What remains possible is a second
  request for a body while no response with that body has arrived.
\<close>

theorem requests_unfetched_when_sent:
  "(\<forall>e \<in> set (sent (getNextQuote opts srv rnd s)). unfetched_when_sent (fetchedIds s) e)
   \<and> (\<forall>ids. prefetchNextBatch opts s = Some ids \<longrightarrow> (\<forall>x \<in> set ids. x \<notin> fetchedIds s))
   \<and> (\<forall>quote \<in> set data. q_id quote \<in> fetchedIds (onSuccess data s))
   \<and> requested (call_log opts srv s (getNextQuote opts srv rnd s))
       = map request_ids (sent (getNextQuote opts srv rnd s))
   \<and> no_rerequest (fetchedIds s) (snd (run opts events s))"
proof (intro conjI)
  have "\<forall>e \<in> set (sent (getNextQuote_loop opts srv rnd s (currentIdIndex s) s [])).
          unfetched_when_sent (fetchedIds s) e"
    by (rule loop_sent) simp_all
  then show "\<forall>e \<in> set (sent (getNextQuote opts srv rnd s)). unfetched_when_sent (fetchedIds s) e"
    by (simp add: getNextQuote_def)
  show "\<forall>ids. prefetchNextBatch opts s = Some ids \<longrightarrow> (\<forall>x \<in> set ids. x \<notin> fetchedIds s)"
    by (auto dest: prefetchNextBatch_Some)
  show "\<forall>quote \<in> set data. q_id quote \<in> fetchedIds (onSuccess data s)"
    by (simp add: fetchedIds_onSuccess)
  show "requested (call_log opts srv s (getNextQuote opts srv rnd s))
          = map request_ids (sent (getNextQuote opts srv rnd s))"
    using call_log_ok [of "fetchedIds s" s opts srv rnd] by simp
  show "no_rerequest (fetchedIds s) (snd (run opts events s))"
    by (rule run_ok) simp
qed

lemmas session_defs = call_log_def in_flight_def request_ids_def

theorem requests_unfetched_when_sent_witness:
  "sent (getNextQuote pair_batches echo_server quarter_rnd hook_two_cached)
     = [(Batch [''c''], {''a'', ''b''})]
   \<and> unfetched_when_sent (fetchedIds hook_two_cached) (Batch [''c''], {''a'', ''b''})
   \<and> prefetchNextBatch pair_batches hook_two_cached = Some [''c'']
   \<and> ''c'' \<notin> fetchedIds hook_two_cached
   \<and> ''c'' \<in> fetchedIds (onSuccess [sample_quote ''c''] hook_two_cached)
   \<and> snd (run pair_batches
            [NextQuote echo_server quarter_rnd, NextQuote echo_server quarter_rnd,
             NextQuote echo_server quarter_rnd, Arrival [sample_quote ''c''], Prefetch]
            hook_two_cached)
       = [Requested [''c''], Requested [''c''], Received [''c''], Received [''c'']]
   \<and> no_rerequest (fetchedIds hook_two_cached)
        [Requested [''c''], Requested [''c''], Received [''c''], Received [''c'']]"
proof -
  have e: "sent (getNextQuote pair_batches echo_server quarter_rnd hook_two_cached)
             = [(Batch [''c''], {''a'', ''b''})]"
    by (simp add: run_defs hook_two_cached_def)
  have p: "prefetchNextBatch pair_batches hook_two_cached = Some [''c'']"
    by (simp add: run_defs hook_two_cached_def)
  have l: "snd (run pair_batches
            [NextQuote echo_server quarter_rnd, NextQuote echo_server quarter_rnd,
             NextQuote echo_server quarter_rnd, Arrival [sample_quote ''c''], Prefetch]
            hook_two_cached)
       = [Requested [''c''], Requested [''c''], Received [''c''], Received [''c'']]"
    by (simp add: run_defs session_defs hook_two_cached_def shuffleArray_def random_index_def
          quarter_rnd_def numeral_2_eq_2)
  show ?thesis
    using e p l
      requests_unfetched_when_sent
        [of pair_batches echo_server quarter_rnd hook_two_cached "[sample_quote ''c'']"
            "[NextQuote echo_server quarter_rnd, NextQuote echo_server quarter_rnd,
              NextQuote echo_server quarter_rnd, Arrival [sample_quote ''c''], Prefetch]"]
    by simp
qed

text \<open>
  Claim C1 as it is stated fails: a body can be requested twice. With batches of two,
  the first call of \<open>getNextQuote\<close> shows \<^verbatim>\<open>b\<close> from the cache and its prefetch requests
  \<^verbatim>\<open>c\<close>; a second call that is made before that response has arrived (the state is the
  one the first call left) requests \<^verbatim>\<open>c\<close> again.
\<close>

theorem id_requested_twice:
  "map fst (sent (getNextQuote pair_batches echo_server quarter_rnd hook_two_cached))
     = [Batch [''c'']]
   \<and> map fst (sent (getNextQuote pair_batches echo_server quarter_rnd
        (hook_after (getNextQuote pair_batches echo_server quarter_rnd hook_two_cached))))
     = [Batch [''c'']]"
  by (simp add: run_defs hook_two_cached_def)

text \<open>
  Claim C2 says that a call of \<open>getNextQuote\<close>, when the body of the next identifier is not
  in the cache, requests a batch with that identifier, then shows that quote and advances
  the position by one. The code does the first and not the rest. With batches of one
  quote, the next identifier \<^verbatim>\<open>b\<close> is not in the cache; the call requests \<^verbatim>\<open>b\<close>, then
  \<^verbatim>\<open>c\<close>, marks both as fetched, and ends without showing a quote: the current quote is
  still \<^verbatim>\<open>a\<close> and the position is still 1.
\<close>

theorem uncached_next_quote_not_served:
  "quotesCache hook_one_cached (shuffledIds hook_one_cached ! currentIdIndex hook_one_cached) = None
   \<and> map fst (sent (getNextQuote single_batches echo_server quarter_rnd hook_one_cached))
       = [Batch [''b''], Batch [''c'']]
   \<and> exit (getNextQuote single_batches echo_server quarter_rnd hook_one_cached) = NotServed
   \<and> currentQuote (hook_after (getNextQuote single_batches echo_server quarter_rnd hook_one_cached))
       = Some (sample_quote ''a'')
   \<and> currentIdIndex (hook_after (getNextQuote single_batches echo_server quarter_rnd hook_one_cached))
       = 1
   \<and> fetchedIds (hook_after (getNextQuote single_batches echo_server quarter_rnd hook_one_cached))
       = {''a'', ''b'', ''c''}"
  by (auto simp: run_defs hook_one_cached_def)

text \<open>
  In general, a call of \<open>getNextQuote\<close> shows only a quote that the cache of the render
  already holds: a body that the call itself fetches is never the one it shows.
\<close>

lemma getNextQuote_serves_only_cached:
  assumes "exit (getNextQuote opts srv rnd s) = Served k"
  shows "currentIdIndex s \<le> k \<and> k < length (shuffledIds s)
         \<and> quotesCache s (shuffledIds s ! k) \<noteq> None"
  using assms by (auto simp: getNextQuote_def dest: loop_served_cached split: if_splits)

text \<open>
  Claim C4. When \<open>getNextQuote\<close> serves the last identifier of the shuffled list (the
  advanced position reaches the length of the list), it replaces \<^verbatim>\<open>shuffledIds\<close> with a
  new local shuffle of the full identifier list \<^verbatim>\<open>allQuoteIds\<close> and resets
  \<^verbatim>\<open>currentIdIndex\<close> to 0, without a new request to the list-identifiers endpoint.
\<close>

theorem reshuffle_after_last:
  assumes "exit (getNextQuote opts srv rnd s) = Served k"
    and "length (shuffledIds s) \<le> k + 1"
  shows "shuffledIds (hook_after (getNextQuote opts srv rnd s)) = shuffleArray rnd (allQuoteIds s)
       \<and> currentIdIndex (hook_after (getNextQuote opts srv rnd s)) = 0
       \<and> currentQuote (hook_after (getNextQuote opts srv rnd s)) = quotesCache s (last (shuffledIds s))
       \<and> (\<forall>e \<in> set (sent (getNextQuote opts srv rnd s)). fst e \<noteq> ListIds)"
proof -
  from assms(1) have ne: "shuffledIds s \<noteq> []"
    by (auto simp: getNextQuote_def split: if_splits)
  then have unfold: "getNextQuote opts srv rnd s
                       = getNextQuote_loop opts srv rnd s (currentIdIndex s) s []"
    by (simp add: getNextQuote_def)
  from assms(1) have served: "exit (getNextQuote_loop opts srv rnd s (currentIdIndex s) s []) = Served k"
    by (simp only: unfold)
  from loop_served_cached [OF served] have "k < length (shuffledIds s)" by simp
  with assms(2) have k: "k = length (shuffledIds s) - 1" by simp
  with ne have lastid: "shuffledIds s ! k = last (shuffledIds s)" by (simp add: last_conv_nth)
  have batches: "\<forall>e \<in> set (sent (getNextQuote_loop opts srv rnd s (currentIdIndex s) s [])).
                   unfetched_when_sent (fetchedIds s) e"
    by (rule loop_sent) simp_all
  have "\<forall>e \<in> set (sent (getNextQuote_loop opts srv rnd s (currentIdIndex s) s [])). fst e \<noteq> ListIds"
  proof
    fix e assume "e \<in> set (sent (getNextQuote_loop opts srv rnd s (currentIdIndex s) s []))"
    with batches have "unfetched_when_sent (fetchedIds s) e" by blast
    then show "fst e \<noteq> ListIds" by (auto simp: unfetched_when_sent_def)
  qed
  with loop_served_state [OF served] assms(2) lastid show ?thesis
    by (simp add: unfold)
qed

theorem reshuffle_after_last_witness:
  "exit (getNextQuote pair_batches echo_server quarter_rnd hook_all_cached) = Served 2
   \<and> length (shuffledIds hook_all_cached) \<le> 2 + 1
   \<and> shuffleArray quarter_rnd (allQuoteIds hook_all_cached) = [''b'', ''c'', ''a'']
   \<and> shuffledIds (hook_after (getNextQuote pair_batches echo_server quarter_rnd hook_all_cached))
       = [''b'', ''c'', ''a'']
   \<and> currentIdIndex (hook_after (getNextQuote pair_batches echo_server quarter_rnd hook_all_cached))
       = 0
   \<and> currentQuote (hook_after (getNextQuote pair_batches echo_server quarter_rnd hook_all_cached))
       = Some (sample_quote ''b'')
   \<and> sent (getNextQuote pair_batches echo_server quarter_rnd hook_all_cached) = []"
proof -
  have served: "exit (getNextQuote pair_batches echo_server quarter_rnd hook_all_cached) = Served 2"
    by (simp add: run_defs hook_all_cached_def)
  have len: "length (shuffledIds hook_all_cached) \<le> 2 + 1"
    by (simp add: hook_all_cached_def)
  have sh: "shuffleArray quarter_rnd (allQuoteIds hook_all_cached) = [''b'', ''c'', ''a'']"
    by (simp add: shuffleArray_def random_index_def quarter_rnd_def hook_all_cached_def
          numeral_2_eq_2)
  have none: "sent (getNextQuote pair_batches echo_server quarter_rnd hook_all_cached) = []"
    by (simp add: run_defs hook_all_cached_def)
  have cached: "quotesCache hook_all_cached (last (shuffledIds hook_all_cached))
                  = Some (sample_quote ''b'')"
    by (simp add: hook_all_cached_def)
  show ?thesis
    using reshuffle_after_last [OF served len] served len sh none cached by simp
qed

text \<open>
  Claim C5. \<open>prefetchNextBatch\<close> issues a batch request if and only if the shuffled list is
  non-empty, the window of the next \<^verbatim>\<open>batchSize\<close> identifiers starting at
  \<^verbatim>\<open>currentIdIndex\<close> contains at least one unfetched identifier, and the number of
  identifiers remaining in the shuffle (length minus \<^verbatim>\<open>currentIdIndex\<close>) is at most
  \<^verbatim>\<open>prefetchThreshold\<close> plus \<^verbatim>\<open>batchSize\<close>; the request contains exactly the unfetched
  identifiers of that window.
\<close>

theorem prefetchNextBatch_iff:
  "prefetchNextBatch opts s =
     (if shuffledIds s \<noteq> []
         \<and> (\<exists>x \<in> set (take (batchSize opts) (drop (currentIdIndex s) (shuffledIds s))).
               x \<notin> fetchedIds s)
         \<and> int (length (shuffledIds s)) - int (currentIdIndex s)
             \<le> int (prefetchThreshold opts) + int (batchSize opts)
      then Some (filter (\<lambda>x. x \<notin> fetchedIds s)
                   (take (batchSize opts) (drop (currentIdIndex s) (shuffledIds s))))
      else None)"
proof -
  have window: "slice (shuffledIds s) (currentIdIndex s) (currentIdIndex s + batchSize opts)
                  = take (batchSize opts) (drop (currentIdIndex s) (shuffledIds s))"
    by (simp add: slice_def drop_take)
  show ?thesis
    unfolding prefetchNextBatch_def window Let_def
    by (auto simp: filter_empty_conv)
qed

theorem prefetchNextBatch_iff_witness:
  "prefetchNextBatch pair_batches hook_two_cached = Some [''c'']
   \<and> shuffledIds hook_two_cached \<noteq> []
   \<and> (\<exists>x \<in> set (take (batchSize pair_batches)
                     (drop (currentIdIndex hook_two_cached) (shuffledIds hook_two_cached))).
         x \<notin> fetchedIds hook_two_cached)
   \<and> prefetchNextBatch pair_batches hook_all_cached = None
   \<and> prefetchNextBatch single_batches hook_one_cached = None"
  using prefetchNextBatch_iff [of pair_batches hook_two_cached]
        prefetchNextBatch_iff [of pair_batches hook_all_cached]
        prefetchNextBatch_iff [of single_batches hook_one_cached]
  by (simp add: hook_one_cached_def hook_two_cached_def hook_all_cached_def
        pair_batches_def single_batches_def)




end
